theory Spec2Isabelle
  imports Main "HOL-Library.Word" "HOL-Library.Sublist" "HOL-Library.Monad_Syntax"
    "HOL-Library.Signed_Division"
begin

section \<open>The process and its environment\<close>

text \<open>
  \<^verbatim>\<open>utils.h\<close> is a header of small helpers over the C library. The model keeps the two
  globals of the logger (\<^verbatim>\<open>log_file\<close>, \<^verbatim>\<open>current_log_level\<close>) in a record, together with
  what the C library shows of the outside world: which streams are open, what has been
  written to which stream (a trace, oldest event first), and the answers the
  environment gives (whether \<^verbatim>\<open>fopen\<close> and \<^verbatim>\<open>malloc\<close> succeed, what \<^verbatim>\<open>ftell\<close>
  reports, which bytes \<^verbatim>\<open>fread\<close> delivers for a request of a given size, the local time
  as \<^verbatim>\<open>strftime\<close> renders it).
\<close>

datatype LogLevel = LOG_DEBUG | LOG_INFO | LOG_WARNING | LOG_ERROR | LOG_FATAL

text \<open>The value of each enumerator, in declaration order from 0.\<close>

fun enum_value :: "LogLevel \<Rightarrow> nat" where
  "enum_value LOG_DEBUG = 0"
| "enum_value LOG_INFO = 1"
| "enum_value LOG_WARNING = 2"
| "enum_value LOG_ERROR = 3"
| "enum_value LOG_FATAL = 4"

text \<open>
  A \<^verbatim>\<open>FILE *\<close>: the two standard streams, or a stream that \<^verbatim>\<open>fopen\<close> made, with its
  serial number and the path it was opened on. The null pointer is \<open>None\<close>.
\<close>

datatype stream = Stdout | Stderr | File nat string

datatype event = Write stream string | Flush stream | Close stream

record world =
  log_file :: "stream option"
  current_log_level :: LogLevel
  open_streams :: "stream list"
  next_stream :: nat
  trace :: "event list"
  fopen_ok :: "string \<Rightarrow> string \<Rightarrow> bool"
  ftell_end :: "string \<Rightarrow> 64 word"
  fread_src :: "string \<Rightarrow> nat \<Rightarrow> string"
  malloc_ok :: "nat \<Rightarrow> bool"
  heap_junk :: "nat \<Rightarrow> char"
  local_time :: string

text \<open>
  A call either returns to its caller, or ends the process through \<^verbatim>\<open>exit\<close>, or runs
  into undefined behaviour (an access outside a block). \<open>then_do\<close> is the sequencing of
  C statements: what follows a call runs only if the call returns.
\<close>

datatype 'a outcome = Returns 'a world | Exits int world | Faults

definition then_do :: "'a outcome \<Rightarrow> ('a \<Rightarrow> world \<Rightarrow> 'b outcome) \<Rightarrow> 'b outcome" where
  "then_do r k = (case r of Returns v w \<Rightarrow> k v w | Exits c w \<Rightarrow> Exits c w | Faults \<Rightarrow> Faults)"

definition EXIT_FAILURE :: int where
  "EXIT_FAILURE = 1"

abbreviation NUL :: char where
  "NUL \<equiv> CHR 0x00"

abbreviation newline :: char where
  "newline \<equiv> CHR 0x0A"

subsection \<open>The C library: streams and the heap\<close>

definition fprintf :: "stream \<Rightarrow> string \<Rightarrow> world \<Rightarrow> world" where
  "fprintf f text w = w\<lparr>trace := trace w @ [Write f text]\<rparr>"

definition fflush :: "stream \<Rightarrow> world \<Rightarrow> world" where
  "fflush f w = w\<lparr>trace := trace w @ [Flush f]\<rparr>"

definition fopen :: "string \<Rightarrow> string \<Rightarrow> world \<Rightarrow> stream option \<times> world" where
  "fopen path mode w =
     (if fopen_ok w path mode
      then (let f = File (next_stream w) path
            in (Some f, w\<lparr>open_streams := f # open_streams w,
                           next_stream := next_stream w + 1\<rparr>))
      else (None, w))"

definition fclose :: "stream \<Rightarrow> world \<Rightarrow> world" where
  "fclose f w = w\<lparr>open_streams := removeAll f (open_streams w),
                  trace := trace w @ [Close f]\<rparr>"

text \<open>
  \<^verbatim>\<open>malloc(size)\<close>: a fresh block of \<open>size\<close> bytes whose content is whatever the heap held,
  or the null pointer when the allocator refuses. A block is modelled by its bytes.
\<close>

definition malloc :: "nat \<Rightarrow> world \<Rightarrow> string option" where
  "malloc sz w = (if malloc_ok w sz then Some (map (heap_junk w) [0..<sz]) else None)"

text \<open>
  \<^verbatim>\<open>fread(ptr, 1, n, file)\<close> from the start of the file: the bytes the library delivers
  for this request (the environment's answer, which may be fewer than the file holds, or
  none), at most \<open>n\<close> of them, stored at the front of the block, and their count. A read
  that delivers nothing stores nothing. Only when bytes are stored where there is no
  block, or more bytes than the block has, is the behaviour undefined (\<open>None\<close>).
\<close>

definition fread :: "string option \<Rightarrow> nat \<Rightarrow> stream \<Rightarrow> world \<Rightarrow> (nat \<times> string option) option" where
  "fread ptr n f w =
     (let got = (case f of File i path \<Rightarrow> take n (fread_src w path n) | _ \<Rightarrow> [])
      in case ptr of
           None \<Rightarrow> if got = [] then Some (0, None) else None
         | Some block \<Rightarrow>
             if length got \<le> length block
             then Some (length got, Some (got @ drop (length got) block))
             else None)"

subsection \<open>The C library: strings in memory\<close>

text \<open>
  Strings live in memory: an array of bytes, a pointer being an index into it (\<open>None\<close> the
  null pointer). The C string at \<open>p\<close> is the bytes from \<open>p\<close> up to the first NUL; a read
  that runs off the array before a NUL is undefined behaviour, \<open>None\<close> in the model.
\<close>

type_synonym memory = "char list"

definition terminated :: "memory \<Rightarrow> nat \<Rightarrow> bool" where
  "terminated mem p = (NUL \<in> set (drop p mem))"

definition cstr :: "memory \<Rightarrow> nat \<Rightarrow> string" where
  "cstr mem p = takeWhile (\<lambda>c. c \<noteq> NUL) (drop p mem)"

definition strlen :: "memory \<Rightarrow> nat \<Rightarrow> nat option" where
  "strlen mem p = (if terminated mem p then Some (length (cstr mem p)) else None)"

text \<open>
  The comparison of \<^verbatim>\<open>strcmp\<close> and \<^verbatim>\<open>strncmp\<close>: the difference of the first two bytes
  that differ, as unsigned bytes, the end of a string being its NUL.
\<close>

fun byte_compare :: "string \<Rightarrow> string \<Rightarrow> int" where
  "byte_compare [] [] = 0"
| "byte_compare [] (b # bs) = - of_char b"
| "byte_compare (a # as) [] = of_char a"
| "byte_compare (a # as) (b # bs) =
     (if a = b then byte_compare as bs else of_char a - of_char b)"

definition strcmp :: "memory \<Rightarrow> nat \<Rightarrow> nat \<Rightarrow> int option" where
  "strcmp mem p q =
     (if terminated mem p \<and> terminated mem q
      then Some (byte_compare (cstr mem p) (cstr mem q)) else None)"

definition strncmp :: "memory \<Rightarrow> nat \<Rightarrow> nat \<Rightarrow> nat \<Rightarrow> int option" where
  "strncmp mem p q n =
     (if (terminated mem p \<or> p + n \<le> length mem) \<and> (terminated mem q \<or> q + n \<le> length mem)
      then Some (byte_compare (take n (cstr mem p)) (take n (cstr mem q))) else None)"

text \<open>\<^verbatim>\<open>memmove(dst, src, n)\<close>: the \<open>n\<close> bytes at \<open>src\<close> copied to \<open>dst\<close>, overlap allowed.\<close>

definition memmove :: "memory \<Rightarrow> nat \<Rightarrow> nat \<Rightarrow> nat \<Rightarrow> memory option" where
  "memmove mem dst src n =
     (if src + n \<le> length mem \<and> dst + n \<le> length mem
      then Some (take dst mem @ take n (drop src mem) @ drop (dst + n) mem) else None)"

section \<open>Memory utilities\<close>

definition safe_malloc :: "nat \<Rightarrow> world \<Rightarrow> string option outcome" where
  "safe_malloc sz w =
     (let ptr = malloc sz w
      in if ptr = None \<and> sz > 0
         then Exits EXIT_FAILURE
                (fprintf Stderr (''Error: Memory allocation failed'' @ [newline]) w)
         else Returns ptr w)"

section \<open>String utilities\<close>

definition str_starts_with :: "nat option \<Rightarrow> nat option \<Rightarrow> memory \<Rightarrow> bool option" where
  "str_starts_with str pre mem =
     (case (str, pre) of
        (Some s, Some p) \<Rightarrow>
          do {
            str_len \<leftarrow> strlen mem s;
            prefix_len \<leftarrow> strlen mem p;
            if prefix_len > str_len then Some False
            else do { r \<leftarrow> strncmp mem s p prefix_len; Some (r = 0) }
          }
      | _ \<Rightarrow> Some False)"

definition str_ends_with :: "nat option \<Rightarrow> nat option \<Rightarrow> memory \<Rightarrow> bool option" where
  "str_ends_with str suf mem =
     (case (str, suf) of
        (Some s, Some x) \<Rightarrow>
          do {
            str_len \<leftarrow> strlen mem s;
            suffix_len \<leftarrow> strlen mem x;
            if suffix_len > str_len then Some False
            else do { r \<leftarrow> strcmp mem (s + str_len - suffix_len) x; Some (r = 0) }
          }
      | _ \<Rightarrow> Some False)"

definition is_ws :: "char \<Rightarrow> bool" where
  "is_ws c = (c = CHR '' '' \<or> c = CHR 0x09 \<or> c = CHR 0x0A \<or> c = CHR 0x0D)"

text \<open>The first loop of \<^verbatim>\<open>str_trim\<close>: \<open>start\<close> moves right over whitespace.\<close>

function leading_loop :: "memory \<Rightarrow> nat \<Rightarrow> nat option" where
  "leading_loop mem start =
     (if start < length mem
      then (if mem ! start \<noteq> NUL \<and> is_ws (mem ! start)
            then leading_loop mem (start + 1) else Some start)
      else None)"
  by pat_completeness auto
termination
  by (relation "measure (\<lambda>(mem, start). length mem - start)") auto

declare leading_loop.simps [simp del]

text \<open>
  The second loop: \<open>e\<close> (the source's \<^verbatim>\<open>end\<close>) moves left from the last byte of the
  string, writing NUL over whitespace, and stops at \<open>str\<close>. It starts at \<open>str - 1\<close> for
  an empty string, so it is an integer.
\<close>

function trailing_loop :: "nat \<Rightarrow> memory \<Rightarrow> int \<Rightarrow> memory option" where
  "trailing_loop str mem e =
     (if e > int str
      then (if nat e < length mem
            then (if is_ws (mem ! nat e)
                  then trailing_loop str (mem[nat e := NUL]) (e - 1) else Some mem)
            else None)
      else Some mem)"
  by pat_completeness auto
termination
  by (relation "measure (\<lambda>(str, mem, e). nat e)") auto

declare trailing_loop.simps [simp del]

definition str_trim :: "nat option \<Rightarrow> memory \<Rightarrow> (nat option \<times> memory) option" where
  "str_trim str mem =
     (case str of
        None \<Rightarrow> Some (None, mem)
      | Some s \<Rightarrow>
          do {
            start \<leftarrow> leading_loop mem s;
            mem1 \<leftarrow> (if start \<noteq> s
                     then do { n \<leftarrow> strlen mem start; memmove mem s start (n + 1) }
                     else Some mem);
            n \<leftarrow> strlen mem1 s;
            mem2 \<leftarrow> trailing_loop s mem1 (int s + int n - 1);
            Some (Some s, mem2)
          })"

section \<open>Time utilities\<close>

text \<open>
  \<^verbatim>\<open>get_timestamp(buffer, size)\<close> with a non-null buffer of \<open>size\<close> bytes: null when
  \<^verbatim>\<open>size < 20\<close>, else the local time in the format \<^verbatim>\<open>%Y-%m-%d %H:%M:%S\<close>.
\<close>

definition get_timestamp :: "nat \<Rightarrow> world \<Rightarrow> string option" where
  "get_timestamp sz w = (if sz < 20 then None else Some (local_time w))"

section \<open>Logging utilities\<close>

definition level_str :: "string list" where
  "level_str = [''DEBUG'', ''INFO'', ''WARNING'', ''ERROR'', ''FATAL'']"

definition log_init :: "string option \<Rightarrow> LogLevel \<Rightarrow> world \<Rightarrow> bool outcome" where
  "log_init filename level w =
     (let w1 = w\<lparr>current_log_level := level\<rparr>
      in case filename of
           None \<Rightarrow> Returns True (w1\<lparr>log_file := Some Stdout\<rparr>)
         | Some path \<Rightarrow>
             (case fopen path ''a'' w1 of
                (None, w2) \<Rightarrow>
                  Returns False
                    (fprintf Stderr (''Error: Could not open log file '' @ path @ [newline])
                       (w2\<lparr>log_file := None\<rparr>))
              | (Some f, w2) \<Rightarrow> Returns True (w2\<lparr>log_file := Some f\<rparr>)))"

definition log_close :: "world \<Rightarrow> unit outcome" where
  "log_close w =
     (case log_file w of
        None \<Rightarrow> Returns () w
      | Some f \<Rightarrow>
          if f \<noteq> Stdout then Returns () ((fclose f w)\<lparr>log_file := None\<rparr>)
          else Returns () w)"

text \<open>
  \<^verbatim>\<open>log_message(level, format, ...)\<close>. Rendering the format with its arguments is
  \<^verbatim>\<open>vfprintf\<close>'s work; the model takes the rendered text as \<open>formatted\<close>.
\<close>

definition log_message :: "LogLevel \<Rightarrow> string \<Rightarrow> world \<Rightarrow> unit outcome" where
  "log_message level formatted w =
     (let w1 = (if log_file w = None then w\<lparr>log_file := Some Stdout\<rparr> else w)
      in if enum_value level < enum_value (current_log_level w1) then Returns () w1
         else
           (case (log_file w1, get_timestamp 20 w1) of
              (Some f, Some timestamp) \<Rightarrow>
                (let w2 = fprintf f (''['' @ timestamp @ ''] ['' @ level_str ! enum_value level @ ''] '') w1;
                     w3 = fprintf f formatted w2;
                     w4 = fprintf f [newline] w3;
                     w5 = fflush f w4
                 in if level = LOG_FATAL then Exits EXIT_FAILURE w5 else Returns () w5)
            | _ \<Rightarrow> Faults))"

section \<open>File utilities\<close>

text \<open>
  \<^verbatim>\<open>file_read_all(filename)\<close>. \<open>sz\<close> is the source's \<^verbatim>\<open>long size\<close>, what \<^verbatim>\<open>ftell\<close>
  reports at the end of the file (\<open>-1\<close> when it fails); the casts to \<^verbatim>\<open>size_t\<close> read the
  same 64 bits as unsigned. \<^verbatim>\<open>free\<close> leaves no mark in the model.
\<close>

definition file_read_all :: "string option \<Rightarrow> world \<Rightarrow> string option outcome" where
  "file_read_all filename w =
     (case filename of
        None \<Rightarrow> Returns None w
      | Some path \<Rightarrow>
          (case fopen path ''rb'' w of
             (None, w1) \<Rightarrow> Returns None w1
           | (Some file, w1) \<Rightarrow>
               (let sz = ftell_end w1 path
                in then_do (safe_malloc (unat (sz + 1)) w1) (\<lambda>content w2.
                     case fread content (unat sz) file w2 of
                       None \<Rightarrow> Faults
                     | Some (read_size, content') \<Rightarrow>
                         (let w3 = fclose file w2
                          in if read_size \<noteq> unat sz then Returns None w3
                             else (case content' of
                                     None \<Rightarrow> Faults
                                   | Some block \<Rightarrow>
                                       if 0 \<le> sint sz \<and> nat (sint sz) < length block
                                       then Returns (Some (block[nat (sint sz) := NUL])) w3
                                       else Faults))))))"

section \<open>Random utilities\<close>

text \<open>
  An \<^verbatim>\<open>int\<close> is a 32-bit word read as two's complement (\<open>sint\<close>). Addition and
  subtraction wrap around, as the machine's do (C leaves signed overflow undefined).
  The remainder \<^verbatim>\<open>%\<close> truncates towards zero, and has no value when the divisor is 0 or
  the quotient overflows.
\<close>

datatype arith_error = DivisionByZero | Overflow

definition c_rem :: "32 word \<Rightarrow> 32 word \<Rightarrow> arith_error + 32 word" where
  "c_rem a b =
     (if b = 0 then Inl DivisionByZero
      else if sint a = - (2 ^ 31) \<and> sint b = - 1 then Inl Overflow
      else Inr (word_of_int (sint a smod sint b)))"

text \<open>\<^verbatim>\<open>random_int(min, max)\<close>, with \<open>r\<close> the value that its call of \<^verbatim>\<open>rand()\<close> returns.\<close>

definition random_int :: "32 word \<Rightarrow> 32 word \<Rightarrow> 32 word \<Rightarrow> arith_error + 32 word" where
  "random_int mn mx r =
     (let (mn', mx') = (if sint mn > sint mx then (mx, mn) else (mn, mx))
      in case c_rem r (mx' - mn' + 1) of
           Inl e \<Rightarrow> Inl e
         | Inr m \<Rightarrow> Inr (mn' + m))"

section \<open>What a call did, and inputs to run the calls on\<close>

text \<open>The world a call leaves behind, whether it returned or ended the process.\<close>

fun world_after :: "'a outcome \<Rightarrow> world option" where
  "world_after (Returns v w) = Some w"
| "world_after (Exits c w) = Some w"
| "world_after Faults = None"

text \<open>
  The events a call added to the trace (none counted for a call that faults), and the
  text among events that was written to a given stream.
\<close>

definition emitted :: "world \<Rightarrow> world \<Rightarrow> event list" where
  "emitted w w' = drop (length (trace w)) (trace w')"

fun written_to :: "stream \<Rightarrow> event list \<Rightarrow> string" where
  "written_to f [] = []"
| "written_to f (Write g text # es) = (if g = f then text @ written_to f es else written_to f es)"
| "written_to f (e # es) = written_to f es"

definition events_of :: "world \<Rightarrow> 'a outcome \<Rightarrow> event list" where
  "events_of w r = (case world_after r of None \<Rightarrow> [] | Some w' \<Rightarrow> emitted w w')"

text \<open>The destination of a log call: the stream set, or the standard output if none is.\<close>

definition destination :: "world \<Rightarrow> stream" where
  "destination w = (case log_file w of None \<Rightarrow> Stdout | Some f \<Rightarrow> f)"

text \<open>The line a log call writes: \<^verbatim>\<open>[<timestamp>] [<LEVEL>] <message>\<close> and a newline.\<close>

definition log_line :: "LogLevel \<Rightarrow> string \<Rightarrow> world \<Rightarrow> string" where
  "log_line level formatted w =
     ''['' @ local_time w @ ''] ['' @ level_str ! enum_value level @ ''] '' @ formatted @ [newline]"

text \<open>The number of bytes the read in \<^verbatim>\<open>file_read_all\<close> gets for a path.\<close>

definition bytes_read :: "world \<Rightarrow> string \<Rightarrow> nat" where
  "bytes_read w path =
     length (take (unat (ftell_end w path)) (fread_src w path (unat (ftell_end w path))))"

text \<open>
  The read that \<^verbatim>\<open>file_read_all\<close> makes on a path it has opened: a request of \<open>size\<close>
  bytes into the block that \<^verbatim>\<open>safe_malloc\<close> returned for \<open>size + 1\<close>. Its value is the
  count \<^verbatim>\<open>fread\<close> returns and the block afterwards; there is none when the allocation
  ended the process, or when the read is undefined.
\<close>

definition read_of :: "world \<Rightarrow> string \<Rightarrow> (nat \<times> string option) option" where
  "read_of w path =
     (case safe_malloc (unat (ftell_end w path + 1)) w of
        Returns content w' \<Rightarrow>
          fread content (unat (ftell_end w path)) (File (next_stream w) path) w'
      | _ \<Rightarrow> None)"

text \<open>The world after a stream was opened on \<open>path\<close> and closed again.\<close>

definition opened_and_closed :: "string \<Rightarrow> world \<Rightarrow> world" where
  "opened_and_closed path w =
     w\<lparr>open_streams := removeAll (File (next_stream w) path) (open_streams w),
       next_stream := next_stream w + 1,
       trace := trace w @ [Close (File (next_stream w) path)]\<rparr>"

text \<open>
  What trimming means, in the spec's words and not taken from the code: the string
  without its leading and without its trailing whitespace.
\<close>

definition trimmed :: "string \<Rightarrow> string" where
  "trimmed t = rev (dropWhile is_ws (rev (dropWhile is_ws t)))"

text \<open>A world to run the calls in: nothing open, nothing written, a clock, a small file system.\<close>

definition world0 :: world where
  "world0 = \<lparr>log_file = None, current_log_level = LOG_INFO, open_streams = [],
      next_stream = 0, trace = [],
      fopen_ok = (\<lambda>path mode. path = ''app.log'' \<or> path = ''empty.txt'' \<or> path = ''data.bin''),
      ftell_end = (\<lambda>path. if path = ''data.bin'' then 4 else 0),
      fread_src = (\<lambda>path n. if path = ''data.bin'' then ''abcd'' else []),
      malloc_ok = (\<lambda>n. True),
      heap_junk = (\<lambda>i. CHR ''?''),
      local_time = ''2025-03-01 12:00:00''\<rparr>"

text \<open>
  Worlds for the file helpers: one without memory to give, one whose files deliver two
  bytes only, and one where the size query fails (\<^verbatim>\<open>ftell\<close> gives \<open>-1\<close>) and the library
  delivers nothing for the request of \<^verbatim>\<open>SIZE_MAX\<close> bytes that follows.
\<close>

definition no_memory_world :: world where
  "no_memory_world = world0\<lparr>malloc_ok := (\<lambda>n. False)\<rparr>"

definition short_read_world :: world where
  "short_read_world = world0\<lparr>fread_src := (\<lambda>path n. ''ab'')\<rparr>"

definition failed_tell_world :: world where
  "failed_tell_world =
     world0\<lparr>ftell_end := (\<lambda>path. - 1),
            fread_src := (\<lambda>path n. if n < 2 ^ 63 then ''abcd'' else [])\<rparr>"

text \<open>Two strings side by side in one buffer: the first at 0, the second after its NUL.\<close>

definition two_strings :: "string \<Rightarrow> string \<Rightarrow> memory" where
  "two_strings a b = a @ [NUL] @ b @ [NUL]"

text \<open>
  Buffers to trim: a string in the middle of a buffer, followed by another one, and the
  spec's example \<^verbatim>\<open>" \t hi \n"\<close>.
\<close>

definition config_line :: memory where
  "config_line = ''id= 42 '' @ [CHR 0x0D, CHR 0x0A, NUL] @ ''next'' @ [NUL]"

definition padded_hi :: memory where
  "padded_hi = [CHR '' '', CHR 0x09, CHR '' '', CHR ''h'', CHR ''i'', CHR '' '', CHR 0x0A, NUL]"

section \<open>Properties of the logger\<close>

lemma log_message_below:
  "enum_value level < enum_value (current_log_level w) \<Longrightarrow>
   log_message level formatted w = Returns () (w\<lparr>log_file := Some (destination w)\<rparr>)"
  by (cases "log_file w") (simp_all add: log_message_def destination_def)

lemma log_message_at_or_above:
  "\<not> enum_value level < enum_value (current_log_level w) \<Longrightarrow>
   log_message level formatted w =
     (let f = destination w;
          w' = w\<lparr>log_file := Some f,
                 trace := trace w @
                   [Write f (''['' @ local_time w @ ''] ['' @ level_str ! enum_value level @ ''] ''),
                    Write f formatted, Write f [newline], Flush f]\<rparr>
      in if level = LOG_FATAL then Exits EXIT_FAILURE w' else Returns () w')"
  by (cases "log_file w")
     (simp_all add: log_message_def destination_def get_timestamp_def fprintf_def fflush_def Let_def)

lemma log_init_opened:
  "fopen_ok w path ''a'' \<Longrightarrow>
   log_init (Some path) level w =
     Returns True (w\<lparr>current_log_level := level,
                      open_streams := File (next_stream w) path # open_streams w,
                      next_stream := next_stream w + 1,
                      log_file := Some (File (next_stream w) path)\<rparr>)"
  by (simp add: log_init_def fopen_def Let_def)

lemma log_init_not_opened:
  "\<not> fopen_ok w path ''a'' \<Longrightarrow>
   log_init (Some path) level w =
     Returns False (w\<lparr>current_log_level := level, log_file := None,
                       trace := trace w @
                         [Write Stderr (''Error: Could not open log file '' @ path @ [newline])]\<rparr>)"
  by (simp add: log_init_def fopen_def fprintf_def Let_def)

lemma log_init_stdout:
  "log_init None level w = Returns True (w\<lparr>current_log_level := level, log_file := Some Stdout\<rparr>)"
  by (simp add: log_init_def Let_def)

lemma log_line_not_empty: "log_line level formatted w \<noteq> []"
  by (simp add: log_line_def)

text \<open>
  C1. For every threshold and every level, \<^verbatim>\<open>log_message\<close> writes the log line to the
  destination if and only if the level is at least the threshold (the levels ordered as
  the enumeration declares them); below the threshold it writes nothing at all.
\<close>

theorem log_message_writes_iff:
  "(written_to (destination w) (events_of w (log_message level formatted w))
      = log_line level formatted w)
     = (enum_value (current_log_level w) \<le> enum_value level)
   \<and> (events_of w (log_message level formatted w) = [])
     = (enum_value level < enum_value (current_log_level w))"
proof (cases "enum_value level < enum_value (current_log_level w)")
  case True
  have "events_of w (log_message level formatted w) = []"
    by (simp add: log_message_below [OF True] events_of_def emitted_def)
  with True log_line_not_empty [of level formatted w] show ?thesis
    by (simp add: not_le)
next
  case False
  have "events_of w (log_message level formatted w) =
          [Write (destination w)
             (''['' @ local_time w @ ''] ['' @ level_str ! enum_value level @ ''] ''),
           Write (destination w) formatted, Write (destination w) [newline],
           Flush (destination w)]"
    by (simp add: log_message_at_or_above [OF False] events_of_def emitted_def Let_def)
  with False show ?thesis
    by (simp add: log_line_def)
qed

theorem log_message_writes_iff_witness:
  "written_to Stdout (events_of world0 (log_message LOG_WARNING ''disk low'' world0))
     = ''[2025-03-01 12:00:00] [WARNING] disk low'' @ [newline]
   \<and> events_of world0 (log_message LOG_DEBUG ''tick'' world0) = []"
  using log_message_writes_iff [of world0 LOG_WARNING "''disk low''"]
        log_message_writes_iff [of world0 LOG_DEBUG "''tick''"]
  by (simp add: world0_def destination_def log_line_def level_str_def)

text \<open>
  C2, as the header has it. A call below the threshold writes nothing and returns, and
  leaves the threshold and everything else as it was, with one exception: the
  destination, if unset, has become the standard output (the null check comes before the
  level check). With a destination set, the whole state is unchanged.
\<close>

theorem log_message_below_threshold:
  assumes "enum_value level < enum_value (current_log_level w)"
  shows "\<exists>w'. log_message level formatted w = Returns () w'
           \<and> w' = w\<lparr>log_file := Some (destination w)\<rparr>
           \<and> trace w' = trace w
           \<and> current_log_level w' = current_log_level w
           \<and> (log_file w \<noteq> None \<longrightarrow> w' = w)"
  using log_message_below [OF assms, of formatted]
  by (cases "log_file w") (simp_all add: destination_def)

theorem log_message_below_threshold_witness:
  "enum_value LOG_DEBUG < enum_value (current_log_level (world0\<lparr>log_file := Some Stderr\<rparr>))
   \<and> log_message LOG_DEBUG ''tick'' (world0\<lparr>log_file := Some Stderr\<rparr>)
       = Returns () (world0\<lparr>log_file := Some Stderr\<rparr>)"
  using log_message_below_threshold [of LOG_DEBUG "world0\<lparr>log_file := Some Stderr\<rparr>" "''tick''"]
  by (simp add: world0_def destination_def)

text \<open>
  C2, as the spec has it, fails when the destination is unset: the call below the
  threshold returns with the destination set to the standard output, so the logger state
  has changed.
\<close>

theorem log_message_below_changes_unset_destination:
  "enum_value LOG_DEBUG < enum_value (current_log_level world0)
   \<and> log_file world0 = None
   \<and> log_message LOG_DEBUG ''tick'' world0 = Returns () (world0\<lparr>log_file := Some Stdout\<rparr>)
   \<and> log_message LOG_DEBUG ''tick'' world0 \<noteq> Returns () world0"
proof -
  have below: "enum_value LOG_DEBUG < enum_value (current_log_level world0)"
    by (simp add: world0_def)
  have unset: "log_file world0 = None"
    by (simp add: world0_def)
  have run: "log_message LOG_DEBUG ''tick'' world0 = Returns () (world0\<lparr>log_file := Some Stdout\<rparr>)"
    by (simp add: log_message_below [OF below] destination_def unset)
  have "world0\<lparr>log_file := Some Stdout\<rparr> \<noteq> world0"
  proof
    assume "world0\<lparr>log_file := Some Stdout\<rparr> = world0"
    then have "log_file (world0\<lparr>log_file := Some Stdout\<rparr>) = log_file world0"
      by (rule arg_cong)
    with unset show False
      by simp
  qed
  with below unset run show ?thesis
    by simp
qed

text \<open>
  C3. In every logger state, whatever the threshold, \<^verbatim>\<open>log_message(LOG_FATAL, ...)\<close>
  writes the line to the destination, flushes it, and ends the process with the failure
  status; no statement after the call runs (whatever \<open>rest\<close> is, it has no effect).
  No threshold is above \<^verbatim>\<open>LOG_FATAL\<close>, the last enumerator.
\<close>

theorem log_message_fatal_exits:
  "then_do (log_message LOG_FATAL formatted w) rest =
     Exits EXIT_FAILURE
       (w\<lparr>log_file := Some (destination w),
          trace := trace w @
            [Write (destination w) (''['' @ local_time w @ ''] [FATAL] ''),
             Write (destination w) formatted,
             Write (destination w) [newline],
             Flush (destination w)]\<rparr>)
   \<and> EXIT_FAILURE \<noteq> 0"
proof -
  have "\<not> enum_value LOG_FATAL < enum_value (current_log_level w)"
    by (cases "current_log_level w") simp_all
  from log_message_at_or_above [OF this, of formatted] show ?thesis
    by (simp add: then_do_def Let_def level_str_def EXIT_FAILURE_def)
qed

theorem log_message_fatal_exits_witness:
  "then_do (log_message LOG_FATAL ''out of luck'' (world0\<lparr>current_log_level := LOG_FATAL\<rparr>))
       (\<lambda>_. log_message LOG_ERROR ''after'')
     = Exits 1
         (world0\<lparr>current_log_level := LOG_FATAL, log_file := Some Stdout,
            trace := [Write Stdout ''[2025-03-01 12:00:00] [FATAL] '',
                      Write Stdout ''out of luck'', Write Stdout [newline], Flush Stdout]\<rparr>)"
  using log_message_fatal_exits [of "''out of luck''" "world0\<lparr>current_log_level := LOG_FATAL\<rparr>"
          "\<lambda>_. log_message LOG_ERROR ''after''"]
  by (simp add: world0_def destination_def EXIT_FAILURE_def)

text \<open>
  C4. When \<^verbatim>\<open>log_init\<close> opens the path, it returns true with the new stream as the
  destination; \<^verbatim>\<open>log_close\<close> then closes that stream (it is no longer among the open
  ones) and leaves the destination unset; and a \<^verbatim>\<open>log_message\<close> after that takes the
  standard output as its destination: it leaves it set, and what it writes goes there.
\<close>

theorem log_init_close_then_message:
  assumes "fopen_ok w path ''a''"
  shows "\<exists>f w1 w2 w3.
           log_init (Some path) threshold w = Returns True w1
         \<and> log_file w1 = Some f \<and> f = File (next_stream w) path \<and> f \<in> set (open_streams w1)
         \<and> log_close w1 = Returns () w2
         \<and> log_file w2 = None \<and> f \<notin> set (open_streams w2) \<and> emitted w1 w2 = [Close f]
         \<and> destination w2 = Stdout
         \<and> world_after (log_message level formatted w2) = Some w3
         \<and> log_file w3 = Some Stdout
         \<and> written_to Stdout (emitted w2 w3) =
             (if enum_value threshold \<le> enum_value level then log_line level formatted w else [])
         \<and> written_to f (emitted w2 w3) = []"
proof -
  define f where "f = File (next_stream w) path"
  define w1 where "w1 = w\<lparr>current_log_level := threshold,
                           open_streams := f # open_streams w,
                           next_stream := next_stream w + 1,
                           log_file := Some f\<rparr>"
  define w2 where "w2 = (fclose f w1)\<lparr>log_file := None\<rparr>"
  have init: "log_init (Some path) threshold w = Returns True w1"
    by (simp add: log_init_opened [OF assms] w1_def f_def)
  have close: "log_close w1 = Returns () w2"
    by (simp add: log_close_def w1_def w2_def f_def)
  have w2: "log_file w2 = None" "f \<notin> set (open_streams w2)" "emitted w1 w2 = [Close f]"
    "destination w2 = Stdout" "current_log_level w2 = threshold" "local_time w2 = local_time w"
    by (simp_all add: w2_def w1_def fclose_def emitted_def destination_def)
  show ?thesis
  proof (cases "enum_value level < enum_value threshold")
    case True
    then have "log_message level formatted w2 = Returns () (w2\<lparr>log_file := Some Stdout\<rparr>)"
      using log_message_below [of level w2 formatted] w2 by simp
    with True init close w2 show ?thesis
      by (simp add: w1_def f_def emitted_def)
  next
    case False
    then have "world_after (log_message level formatted w2) =
        Some (w2\<lparr>log_file := Some Stdout,
                 trace := trace w2 @
                   [Write Stdout (''['' @ local_time w @ ''] ['' @ level_str ! enum_value level @ ''] ''),
                    Write Stdout formatted, Write Stdout [newline], Flush Stdout]\<rparr>)"
      using log_message_at_or_above [of level w2 formatted] w2 by (simp add: Let_def)
    with False init close w2 show ?thesis
      by (simp add: w1_def f_def emitted_def log_line_def)
  qed
qed

theorem log_init_close_then_message_witness:
  "fopen_ok world0 ''app.log'' ''a''
   \<and> (\<exists>f w1 w2 w3. log_init (Some ''app.log'') LOG_DEBUG world0 = Returns True w1
        \<and> log_file w1 = Some f \<and> f = File 0 ''app.log''
        \<and> log_close w1 = Returns () w2 \<and> log_file w2 = None
        \<and> world_after (log_message LOG_INFO ''hello'' w2) = Some w3
        \<and> log_file w3 = Some Stdout
        \<and> written_to Stdout (emitted w2 w3) = ''[2025-03-01 12:00:00] [INFO] hello'' @ [newline])"
proof -
  have ok: "fopen_ok world0 ''app.log'' ''a''"
    by (simp add: world0_def)
  from log_init_close_then_message [OF ok, of LOG_DEBUG LOG_INFO "''hello''"]
  obtain f w1 w2 w3 where
    "log_init (Some ''app.log'') LOG_DEBUG world0 = Returns True w1"
    "log_file w1 = Some f" "f = File (next_stream world0) ''app.log''"
    "log_close w1 = Returns () w2" "log_file w2 = None"
    "world_after (log_message LOG_INFO ''hello'' w2) = Some w3"
    "log_file w3 = Some Stdout"
    "written_to Stdout (emitted w2 w3) = log_line LOG_INFO ''hello'' world0"
    by auto
  moreover have "next_stream world0 = 0"
    and "log_line LOG_INFO ''hello'' world0 = ''[2025-03-01 12:00:00] [INFO] hello'' @ [newline]"
    by (simp_all add: world0_def log_line_def level_str_def)
  ultimately show ?thesis
    using ok by auto
qed

text \<open>
  C5. When the path cannot be opened for append, \<^verbatim>\<open>log_init\<close> returns false, writes the
  diagnostic to the standard error stream (and nothing else), and leaves the destination
  unset, whatever it was before.
\<close>

theorem log_init_open_failure:
  assumes "\<not> fopen_ok w path ''a''"
  shows "\<exists>w'. log_init (Some path) level w = Returns False w'
           \<and> log_file w' = None
           \<and> emitted w w' = [Write Stderr (''Error: Could not open log file '' @ path @ [newline])]
           \<and> open_streams w' = open_streams w"
  by (simp add: log_init_not_opened [OF assms] emitted_def)

theorem log_init_open_failure_witness:
  "\<not> fopen_ok world0 ''/no/such/dir/x.log'' ''a''
   \<and> (\<exists>w'. log_init (Some ''/no/such/dir/x.log'') LOG_ERROR (world0\<lparr>log_file := Some Stdout\<rparr>)
              = Returns False w'
         \<and> log_file w' = None
         \<and> trace w' = [Write Stderr (''Error: Could not open log file /no/such/dir/x.log'' @ [newline])])"
proof -
  have no: "\<not> fopen_ok (world0\<lparr>log_file := Some Stdout\<rparr>) ''/no/such/dir/x.log'' ''a''"
    by (simp add: world0_def)
  from log_init_open_failure [OF no, of LOG_ERROR] show ?thesis
    by (auto simp: world0_def emitted_def)
qed

text \<open>
  C6. \<^verbatim>\<open>log_init\<close> returns, and the threshold is then the level asked for, whether or not
  a path was given and whether or not it could be opened. In particular an init that
  fails (returns false) has changed the threshold all the same.
\<close>

theorem log_init_sets_threshold:
  "(\<exists>ok w'. log_init filename level w = Returns ok w' \<and> current_log_level w' = level)
   \<and> (\<not> fopen_ok w path ''a'' \<longrightarrow>
        (\<exists>w'. log_init (Some path) level w = Returns False w' \<and> current_log_level w' = level))"
proof -
  have "\<exists>ok w'. log_init filename level w = Returns ok w' \<and> current_log_level w' = level"
  proof (cases filename)
    case None
    then show ?thesis
      by (auto simp: log_init_stdout)
  next
    case (Some p)
    then show ?thesis
      by (cases "fopen_ok w p ''a''") (auto simp: log_init_opened log_init_not_opened)
  qed
  then show ?thesis
    by (auto simp: log_init_not_opened)
qed

theorem log_init_sets_threshold_witness:
  "current_log_level world0 = LOG_INFO
   \<and> \<not> fopen_ok world0 ''/no/such/dir/x.log'' ''a''
   \<and> (\<exists>w'. log_init (Some ''/no/such/dir/x.log'') LOG_DEBUG world0 = Returns False w'
         \<and> current_log_level w' = LOG_DEBUG)"
  using log_init_sets_threshold [of "Some ''/no/such/dir/x.log''" LOG_DEBUG world0 "''/no/such/dir/x.log''"]
  by (simp add: world0_def)

section \<open>Properties of the string helpers\<close>

subsection \<open>Prefix and suffix tests\<close>

lemma byte_compare_eq_0:
  "NUL \<notin> set xs \<Longrightarrow> NUL \<notin> set ys \<Longrightarrow> (byte_compare xs ys = 0) = (xs = ys)"
proof (induction xs ys rule: byte_compare.induct)
  case 1
  then show ?case by simp
next
  case (2 b bs)
  then have "b \<noteq> NUL" by auto
  then have "(of_char b :: int) \<noteq> of_char NUL"
    by (simp only: of_char_eq_iff not_False_eq_True)
  then show ?case by simp
next
  case (3 a as)
  then have "a \<noteq> NUL" by auto
  then have "(of_char a :: int) \<noteq> of_char NUL"
    by (simp only: of_char_eq_iff not_False_eq_True)
  then show ?case by simp
next
  case (4 a as b bs)
  then show ?case by auto
qed

lemma NUL_notin_cstr: "NUL \<notin> set (cstr mem p)"
  by (auto simp: cstr_def dest: set_takeWhileD)

lemma takeWhile_drop_within:
  "k \<le> length (takeWhile P xs) \<Longrightarrow> takeWhile P (drop k xs) = drop k (takeWhile P xs)"
proof (induction xs arbitrary: k)
  case Nil
  then show ?case by simp
next
  case (Cons x xs)
  then show ?case by (cases k) (auto split: if_splits)
qed

lemma cstr_offset:
  "k \<le> length (cstr mem p) \<Longrightarrow> cstr mem (p + k) = drop k (cstr mem p)"
  using takeWhile_drop_within [of k "\<lambda>c. c \<noteq> NUL" "drop p mem"]
  by (simp add: cstr_def add.commute)

lemma terminated_offset:
  assumes "terminated mem p" and "k \<le> length (cstr mem p)"
  shows "terminated mem (p + k)"
proof -
  have split: "drop p mem = cstr mem p @ dropWhile (\<lambda>c. c \<noteq> NUL) (drop p mem)"
    by (simp add: cstr_def)
  have "NUL \<in> set (cstr mem p) \<union> set (dropWhile (\<lambda>c. c \<noteq> NUL) (drop p mem))"
    using assms(1) unfolding terminated_def by (subst (asm) split) simp
  then have tail: "NUL \<in> set (dropWhile (\<lambda>c. c \<noteq> NUL) (drop p mem))"
    using NUL_notin_cstr [of mem p] by simp
  have "drop (p + k) mem = drop k (drop p mem)"
    by (simp add: add.commute)
  also have "\<dots> = drop k (cstr mem p @ dropWhile (\<lambda>c. c \<noteq> NUL) (drop p mem))"
    using split by simp
  also have "\<dots> = drop k (cstr mem p) @ dropWhile (\<lambda>c. c \<noteq> NUL) (drop p mem)"
    using assms(2) by simp
  finally show ?thesis
    using tail by (simp add: terminated_def)
qed

lemma prefix_iff_take: "prefix xs ys = (length xs \<le> length ys \<and> take (length xs) ys = xs)"
proof
  assume "prefix xs ys"
  then show "length xs \<le> length ys \<and> take (length xs) ys = xs"
    by (auto simp: prefix_def)
next
  assume "length xs \<le> length ys \<and> take (length xs) ys = xs"
  then have "xs = take (length xs) ys"
    by simp
  then show "prefix xs ys"
    using take_is_prefix [of "length xs" ys] by simp
qed

lemma suffix_iff_drop:
  "suffix xs ys = (length xs \<le> length ys \<and> drop (length ys - length xs) ys = xs)"
proof
  assume "suffix xs ys"
  then show "length xs \<le> length ys \<and> drop (length ys - length xs) ys = xs"
    by (auto simp: suffix_def)
next
  assume "length xs \<le> length ys \<and> drop (length ys - length xs) ys = xs"
  then have "xs = drop (length ys - length xs) ys"
    by simp
  then show "suffix xs ys"
    using suffix_drop [of "length ys - length xs" ys] by simp
qed

lemma str_starts_with_prefix:
  assumes "terminated mem s" and "terminated mem p"
  shows "str_starts_with (Some s) (Some p) mem = Some (prefix (cstr mem p) (cstr mem s))"
proof (cases "length (cstr mem p) > length (cstr mem s)")
  case True
  then have "\<not> prefix (cstr mem p) (cstr mem s)"
    by (auto dest: prefix_length_le)
  with True assms show ?thesis
    by (simp add: str_starts_with_def strlen_def)
next
  case False
  have "(byte_compare (take (length (cstr mem p)) (cstr mem s)) (cstr mem p) = 0)
          = (take (length (cstr mem p)) (cstr mem s) = cstr mem p)"
    using NUL_notin_cstr [of mem s] NUL_notin_cstr [of mem p]
    by (intro byte_compare_eq_0) (auto dest: in_set_takeD)
  with False assms show ?thesis
    by (simp add: str_starts_with_def strlen_def strncmp_def prefix_iff_take)
qed

lemma str_ends_with_suffix:
  assumes "terminated mem s" and "terminated mem x"
  shows "str_ends_with (Some s) (Some x) mem = Some (suffix (cstr mem x) (cstr mem s))"
proof (cases "length (cstr mem x) > length (cstr mem s)")
  case True
  then have "\<not> suffix (cstr mem x) (cstr mem s)"
    by (auto dest: suffix_length_le)
  with True assms show ?thesis
    by (simp add: str_ends_with_def strlen_def)
next
  case False
  define k where "k = length (cstr mem s) - length (cstr mem x)"
  have k: "k \<le> length (cstr mem s)" "s + length (cstr mem s) - length (cstr mem x) = s + k"
    using False by (simp_all add: k_def)
  have "(byte_compare (drop k (cstr mem s)) (cstr mem x) = 0) = (drop k (cstr mem s) = cstr mem x)"
    using NUL_notin_cstr [of mem s] NUL_notin_cstr [of mem x]
    by (intro byte_compare_eq_0) (auto dest: in_set_dropD)
  moreover have "suffix (cstr mem x) (cstr mem s) = (drop k (cstr mem s) = cstr mem x)"
    using False by (simp add: suffix_iff_drop k_def)
  moreover have "strcmp mem (s + k) x = Some (byte_compare (drop k (cstr mem s)) (cstr mem x))"
    using assms(2) terminated_offset [OF assms(1) k(1)] cstr_offset [OF k(1)]
    by (simp add: strcmp_def)
  ultimately show ?thesis
    using False assms k(2) by (simp add: str_ends_with_def strlen_def)
qed

text \<open>
  C9. For strings \<open>s\<close> and \<open>p\<close> in memory (both pointers non-null),
  \<^verbatim>\<open>str_starts_with\<close> returns true exactly when the string at \<open>p\<close> is a prefix of the one
  at \<open>s\<close>, and \<^verbatim>\<open>str_ends_with\<close> exactly when the string at \<open>x\<close> is a suffix of it. With
  a null pointer for either argument both return false. The four cases of the spec:
  \<^verbatim>\<open>"hello world"\<close> starts with \<^verbatim>\<open>"hello"\<close>, \<^verbatim>\<open>"hi"\<close> does not; \<^verbatim>\<open>"report.txt"\<close> ends with
  \<^verbatim>\<open>".txt"\<close>, \<^verbatim>\<open>"x"\<close> does not end with \<^verbatim>\<open>"xxx"\<close>.
\<close>

theorem str_starts_ends_with:
  "(terminated mem s \<and> terminated mem p \<longrightarrow>
      str_starts_with (Some s) (Some p) mem = Some (prefix (cstr mem p) (cstr mem s)))
   \<and> (terminated mem s \<and> terminated mem x \<longrightarrow>
      str_ends_with (Some s) (Some x) mem = Some (suffix (cstr mem x) (cstr mem s)))
   \<and> str_starts_with None q mem = Some False \<and> str_starts_with q None mem = Some False
   \<and> str_ends_with None q mem = Some False \<and> str_ends_with q None mem = Some False
   \<and> str_starts_with (Some 0) (Some 12) (two_strings ''hello world'' ''hello'') = Some True
   \<and> str_starts_with (Some 0) (Some 3) (two_strings ''hi'' ''hello'') = Some False
   \<and> str_ends_with (Some 0) (Some 11) (two_strings ''report.txt'' ''.txt'') = Some True
   \<and> str_ends_with (Some 0) (Some 2) (two_strings ''x'' ''xxx'') = Some False"
proof -
  have null: "str_starts_with None q mem = Some False" "str_starts_with q None mem = Some False"
    "str_ends_with None q mem = Some False" "str_ends_with q None mem = Some False"
    by (simp_all add: str_starts_with_def str_ends_with_def split: option.split)
  have cases: "str_starts_with (Some 0) (Some 12) (two_strings ''hello world'' ''hello'') = Some True"
    "str_starts_with (Some 0) (Some 3) (two_strings ''hi'' ''hello'') = Some False"
    "str_ends_with (Some 0) (Some 11) (two_strings ''report.txt'' ''.txt'') = Some True"
    "str_ends_with (Some 0) (Some 2) (two_strings ''x'' ''xxx'') = Some False"
    by code_simp+
  show ?thesis
    using str_starts_with_prefix [of mem s p] str_ends_with_suffix [of mem s x] null cases
    by simp
qed

theorem str_starts_ends_with_witness:
  "terminated (two_strings ''main.c'' ''.c'') 0 \<and> terminated (two_strings ''main.c'' ''.c'') 7
   \<and> cstr (two_strings ''main.c'' ''.c'') 0 = ''main.c''
   \<and> cstr (two_strings ''main.c'' ''.c'') 7 = ''.c''
   \<and> str_starts_with (Some 0) (Some 7) (two_strings ''main.c'' ''.c'') = Some False
   \<and> str_ends_with (Some 0) (Some 7) (two_strings ''main.c'' ''.c'') = Some True"
proof -
  let ?mem = "two_strings ''main.c'' ''.c''"
  have ended: "terminated ?mem 0" "terminated ?mem 7"
    by (simp_all add: terminated_def two_strings_def)
  have strings: "cstr ?mem 0 = ''main.c''" "cstr ?mem 7 = ''.c''"
    by (simp_all add: cstr_def two_strings_def)
  have "\<not> prefix ''.c'' ''main.c''" and "suffix ''.c'' ''main.c''"
    by (simp_all add: suffix_def)
  with str_starts_ends_with [of ?mem 0 7 7 None] ended strings show ?thesis
    by simp
qed

subsection \<open>Trimming\<close>

lemma terminated_bound: "terminated mem p \<Longrightarrow> p < length mem"
  by (cases "p < length mem") (simp_all add: terminated_def)

lemma drop_at: "p < length mem \<Longrightarrow> drop p mem = mem ! p # drop (Suc p) mem"
  by (simp add: Cons_nth_drop_Suc)

lemma leading_loop_result:
  "terminated mem s \<Longrightarrow> leading_loop mem s = Some (s + length (takeWhile is_ws (cstr mem s)))"
proof (induction mem s rule: leading_loop.induct)
  case (1 mem start)
  from "1.prems" have bound: "start < length mem"
    by (rule terminated_bound)
  note here = drop_at [OF bound]
  show ?case
  proof (cases "mem ! start \<noteq> NUL \<and> is_ws (mem ! start)")
    case True
    with "1.prems" here have "terminated mem (start + 1)"
      by (auto simp: terminated_def)
    with "1.IH" bound True
    have rec: "leading_loop mem (start + 1) = Some (start + 1 + length (takeWhile is_ws (cstr mem (start + 1))))"
      by simp
    have string: "cstr mem start = mem ! start # cstr mem (start + 1)"
      using True here by (simp add: cstr_def)
    have "leading_loop mem start = leading_loop mem (start + 1)"
      using bound True by (subst leading_loop.simps) simp
    also note rec
    also have "start + 1 + length (takeWhile is_ws (cstr mem (start + 1)))
                 = start + length (takeWhile is_ws (cstr mem start))"
      unfolding string using True by simp
    finally show ?thesis .
  next
    case False
    then have "takeWhile is_ws (cstr mem start) = []"
      using here by (auto simp: cstr_def)
    with bound False show ?thesis
      by (subst leading_loop.simps) auto
  qed
qed

lemma split_at_NUL:
  "NUL \<in> set xs \<Longrightarrow>
   xs = takeWhile (\<lambda>c. c \<noteq> NUL) xs @ NUL # drop (length (takeWhile (\<lambda>c. c \<noteq> NUL) xs) + 1) xs"
  by (induction xs) auto

lemma rest_split:
  assumes "terminated mem p"
  shows "drop p mem = cstr mem p @ NUL # drop (p + length (cstr mem p) + 1) mem"
proof -
  have tail: "drop (length (cstr mem p) + 1) (drop p mem) = drop (p + length (cstr mem p) + 1) mem"
    by (simp add: add.commute add.left_commute)
  have "NUL \<in> set (drop p mem)"
    using assms by (simp add: terminated_def)
  then have "drop p mem = cstr mem p @ NUL # drop (length (cstr mem p) + 1) (drop p mem)"
    unfolding cstr_def by (rule split_at_NUL)
  then show ?thesis
    unfolding tail .
qed

lemma memory_split:
  assumes "terminated mem p"
  shows "mem = take p mem @ cstr mem p @ NUL # drop (p + length (cstr mem p) + 1) mem"
proof -
  have "take p mem @ drop p mem =
      take p mem @ cstr mem p @ NUL # drop (p + length (cstr mem p) + 1) mem"
    using rest_split [OF assms] by (rule arg_cong)
  then show ?thesis
    unfolding append_take_drop_id .
qed

lemma cstr_at_split: "NUL \<notin> set body \<Longrightarrow> cstr (pre @ body @ NUL # zs) (length pre) = body"
  by (auto simp: cstr_def takeWhile_tail)

lemma terminated_at_split: "terminated (pre @ body @ NUL # zs) (length pre)"
  by (simp add: terminated_def)

lemma trailing_loop_result:
  "(body \<noteq> [] \<Longrightarrow> \<not> is_ws (hd body)) \<Longrightarrow>
   trailing_loop (length pre) (pre @ body @ zs) (int (length pre) + int (length body) - 1) =
     Some (pre @ rev (dropWhile is_ws (rev body))
             @ replicate (length (takeWhile is_ws (rev body))) NUL @ zs)"
proof (induction body arbitrary: zs rule: rev_induct)
  case Nil
  show ?case
    by (subst trailing_loop.simps) simp
next
  case (snoc x xs)
  define m where "m = pre @ (xs @ [x]) @ zs"
  define e where "e = int (length pre) + int (length (xs @ [x])) - 1"
  have at: "nat e = length pre + length xs"
    by (simp add: e_def)
  have inside: "nat e < length m"
    by (simp add: at m_def)
  have here: "m ! nat e = x"
    by (simp add: at m_def nth_append)
  show ?case
  proof (cases "xs = []")
    case True
    with snoc.prems have "\<not> is_ws x"
      by simp
    moreover from True have "\<not> e > int (length pre)"
      by (simp add: e_def)
    then have "trailing_loop (length pre) m e = Some m"
      by (subst trailing_loop.simps) simp
    ultimately show ?thesis
      using True by (simp add: m_def e_def)
  next
    case False
    then have pos: "e > int (length pre)"
      by (cases xs) (simp_all add: e_def)
    show ?thesis
    proof (cases "is_ws x")
      case True
      have upd: "m[nat e := NUL] = pre @ xs @ NUL # zs"
        by (simp add: at m_def list_update_append)
      have before: "e - 1 = int (length pre) + int (length xs) - 1"
        by (simp add: e_def)
      have "\<not> is_ws (hd (xs @ [x]))"
        using snoc.prems by simp
      with False have "xs \<noteq> [] \<Longrightarrow> \<not> is_ws (hd xs)"
        by simp
      note rec = snoc.IH [OF this, of "NUL # zs"]
      have "trailing_loop (length pre) m e = trailing_loop (length pre) (m[nat e := NUL]) (e - 1)"
        using pos inside here True by (subst trailing_loop.simps) simp
      also have "\<dots> = Some (pre @ rev (dropWhile is_ws (rev xs))
                      @ replicate (length (takeWhile is_ws (rev xs))) NUL @ NUL # zs)"
        unfolding upd before by (rule rec)
      also have "\<dots> = Some (pre @ rev (dropWhile is_ws (rev (xs @ [x])))
                      @ replicate (length (takeWhile is_ws (rev (xs @ [x])))) NUL @ zs)"
        using True by (simp add: replicate_app_Cons_same)
      finally show ?thesis
        by (simp add: m_def e_def)
    next
      case no: False
      have "trailing_loop (length pre) m e = Some m"
        using pos inside here no by (subst trailing_loop.simps) simp
      with no show ?thesis
        by (simp add: m_def e_def)
    qed
  qed
qed

lemma str_trim_memory:
  assumes "terminated mem s"
  defines "core \<equiv> dropWhile is_ws (cstr mem s)"
  shows "str_trim (Some s) mem =
           Some (Some s, take s mem @ trimmed (cstr mem s)
                   @ NUL # replicate (length (takeWhile is_ws (rev core))) NUL
                   @ drop (s + length core + 1) mem)"
proof -
  define body where "body = cstr mem s"
  define lead where "lead = takeWhile is_ws body"
  define pre where "pre = take s mem"
  define zs where "zs = drop (s + length core + 1) mem"
  have body: "body = lead @ core"
    by (simp add: lead_def core_def body_def)
  have bound: "s < length mem"
    using assms(1) by (rule terminated_bound)
  then have pre: "length pre = s"
    by (simp add: pre_def)
  have lead_le: "length lead \<le> length (cstr mem s)"
    using body by (simp add: body_def)
  have start: "leading_loop mem s = Some (s + length lead)"
    using leading_loop_result [OF assms(1)] by (simp add: lead_def body_def)
  have term_start: "terminated mem (s + length lead)"
    using assms(1) lead_le by (rule terminated_offset)
  have cstr_start: "cstr mem (s + length lead) = core"
    using cstr_offset [OF lead_le] body by (simp add: body_def)
  have fits: "s + length lead + length core + 1 \<le> length mem"
    using terminated_bound [OF terminated_offset [OF term_start, of "length core"]]
    by (simp add: cstr_start add.assoc)
  have "drop (s + length lead) mem = core @ NUL # drop (s + length lead + length core + 1) mem"
    using rest_split [OF term_start] by (simp add: cstr_start)
  then have window: "take (Suc (length core)) (drop (s + length lead) mem) = core @ [NUL]"
    by simp
  have mem1: "(if s + length lead \<noteq> s
               then Option.bind (strlen mem (s + length lead))
                      (\<lambda>n. memmove mem s (s + length lead) (n + 1))
               else Some mem) = Some (pre @ core @ NUL # zs)"
  proof (cases "lead = []")
    case True
    with body have "cstr mem s = core"
      by (simp add: body_def)
    with memory_split [OF assms(1)] True show ?thesis
      by (simp add: pre_def zs_def)
  next
    case False
    have "memmove mem s (s + length lead) (length core + 1) =
            Some (take s mem @ take (length core + 1) (drop (s + length lead) mem)
                    @ drop (s + (length core + 1)) mem)"
      using fits by (simp add: memmove_def)
    with False term_start show ?thesis
      by (simp add: strlen_def cstr_start window pre_def zs_def add.assoc)
  qed
  have no_NUL: "NUL \<notin> set core"
    using NUL_notin_cstr [of mem s] by (auto simp: core_def dest: set_dropWhileD)
  have len1: "strlen (pre @ core @ NUL # zs) s = Some (length core)"
    using cstr_at_split [OF no_NUL, of pre zs] terminated_at_split [of pre core zs]
    by (simp add: strlen_def pre)
  have hd_core: "core \<noteq> [] \<Longrightarrow> \<not> is_ws (hd core)"
    unfolding core_def by (rule hd_dropWhile)
  have "trailing_loop s (pre @ core @ NUL # zs) (int s + int (length core) - 1) =
          Some (pre @ rev (dropWhile is_ws (rev core))
                  @ replicate (length (takeWhile is_ws (rev core))) NUL @ NUL # zs)"
    using trailing_loop_result [OF hd_core, of pre "NUL # zs"] by (simp add: pre)
  with start mem1 len1 show ?thesis
    by (simp add: str_trim_def trimmed_def core_def pre_def zs_def replicate_app_Cons_same)
qed

lemma last_dropWhile: "dropWhile P xs \<noteq> [] \<Longrightarrow> last (dropWhile P xs) = last xs"
  by (induction xs) auto

lemma rev_split_while:
  "rev (dropWhile P (rev xs)) @ rev (takeWhile P (rev xs)) = xs"
proof -
  have "rev (takeWhile P (rev xs) @ dropWhile P (rev xs)) = xs"
    by (simp only: takeWhile_dropWhile_id rev_rev_ident)
  then show ?thesis
    by (simp only: rev_append)
qed

lemma trimmed_decomposition:
  "t = takeWhile is_ws t @ trimmed t @ rev (takeWhile is_ws (rev (dropWhile is_ws t)))"
proof -
  have "takeWhile is_ws t @ trimmed t @ rev (takeWhile is_ws (rev (dropWhile is_ws t)))
          = takeWhile is_ws t @ dropWhile is_ws t"
    unfolding trimmed_def by (simp only: rev_split_while)
  then show ?thesis
    by simp
qed

lemma trimmed_ends:
  assumes "trimmed t \<noteq> []"
  shows "\<not> is_ws (hd (trimmed t))" and "\<not> is_ws (last (trimmed t))"
proof -
  let ?core = "dropWhile is_ws t"
  from assms have right: "dropWhile is_ws (rev ?core) \<noteq> []"
    by (simp add: trimmed_def)
  have core: "?core \<noteq> []"
  proof
    assume "?core = []"
    then have "dropWhile is_ws (rev ?core) = []"
      by (simp only: rev.simps dropWhile.simps)
    with right show False
      by (rule notE)
  qed
  have "hd (trimmed t) = last (dropWhile is_ws (rev ?core))"
    using right by (simp add: trimmed_def hd_rev)
  also have "\<dots> = last (rev ?core)"
    using right by (rule last_dropWhile)
  also have "\<dots> = hd ?core"
    using core by (simp add: last_rev)
  finally show "\<not> is_ws (hd (trimmed t))"
    using hd_dropWhile [OF core] by simp
  have "last (trimmed t) = hd (dropWhile is_ws (rev ?core))"
    using right by (simp add: trimmed_def last_rev)
  then show "\<not> is_ws (last (trimmed t))"
    using hd_dropWhile [OF right] by simp
qed

lemma NUL_notin_trimmed: "NUL \<notin> set t \<Longrightarrow> NUL \<notin> set (trimmed t)"
  by (auto simp: trimmed_def dest!: set_dropWhileD)

lemma length_trimmed:
  "length (trimmed t) + length (takeWhile is_ws (rev (dropWhile is_ws t))) = length (dropWhile is_ws t)"
proof -
  have "length (trimmed t) + length (takeWhile is_ws (rev (dropWhile is_ws t)))
          = length (rev (dropWhile is_ws (rev (dropWhile is_ws t)))
                     @ rev (takeWhile is_ws (rev (dropWhile is_ws t))))"
    by (simp add: trimmed_def)
  then show ?thesis
    by (simp only: rev_split_while)
qed

lemma str_trim_in_place:
  assumes "terminated mem s"
  shows "\<exists>mem'. str_trim (Some s) mem = Some (Some s, mem')
           \<and> terminated mem' s \<and> cstr mem' s = trimmed (cstr mem s)
           \<and> length mem' = length mem \<and> take s mem' = take s mem
           \<and> drop (s + length (cstr mem s) + 1) mem' = drop (s + length (cstr mem s) + 1) mem"
proof -
  define body where "body = cstr mem s"
  define core where "core = dropWhile is_ws body"
  define k where "k = length (takeWhile is_ws (rev core))"
  define pre where "pre = take s mem"
  define zs where "zs = drop (s + length core + 1) mem"
  define mem' where "mem' = pre @ trimmed body @ NUL # replicate k NUL @ zs"
  have run: "str_trim (Some s) mem = Some (Some s, mem')"
    using str_trim_memory [OF assms]
    by (simp add: mem'_def pre_def zs_def k_def core_def body_def)
  have pre: "length pre = s"
    using terminated_bound [OF assms] by (simp add: pre_def)
  have "length body = length (takeWhile is_ws body) + length core"
    unfolding core_def by (simp only: length_append [symmetric] takeWhile_dropWhile_id)
  then obtain d where d: "length body = length core + d"
    by (simp add: add.commute)
  have "s + length body < length mem"
    using terminated_bound [OF terminated_offset [OF assms, of "length body"]]
    by (simp add: body_def)
  with d have fits: "s + length core + 1 \<le> length mem"
    by simp
  have sizes: "length (trimmed body) + k = length core"
    using length_trimmed [of body] by (simp add: k_def core_def)
  have "NUL \<notin> set (trimmed body)"
    using NUL_notin_cstr [of mem s] by (intro NUL_notin_trimmed) (simp add: body_def)
  then have string: "cstr mem' s = trimmed body"
    using cstr_at_split [of "trimmed body" pre "replicate k NUL @ zs"] by (simp add: mem'_def pre)
  have ended: "terminated mem' s"
    using terminated_at_split [of pre "trimmed body" "replicate k NUL @ zs"] by (simp add: mem'_def pre)
  have len: "length mem' = length mem"
    using fits sizes by (simp add: mem'_def pre zs_def)
  have before: "take s mem' = take s mem"
    by (simp add: mem'_def pre pre_def [symmetric])
  have "mem' = (pre @ trimmed body @ NUL # replicate k NUL) @ zs"
    by (simp add: mem'_def)
  moreover have "length (pre @ trimmed body @ NUL # replicate k NUL) = s + length core + 1"
    using sizes by (simp add: pre)
  ultimately have "drop (s + length core + 1) mem' = zs"
    by (metis append_eq_conv_conj)
  then have "drop d (drop (s + length core + 1) mem') = drop d (drop (s + length core + 1) mem)"
    by (simp only: zs_def)
  then have after: "drop (s + length body + 1) mem' = drop (s + length body + 1) mem"
    by (simp add: d add.commute add.left_commute)
  from run ended string len before after show ?thesis
    by (auto simp: body_def)
qed

text \<open>
  C8. \<^verbatim>\<open>str_trim\<close> on a string in memory returns the pointer it was given, and the
  string there is then the old one without its leading and trailing whitespace (space,
  tab, newline, carriage return): what was cut off on either side is whitespace only, and
  what is left neither starts nor ends with whitespace. The memory keeps its size, and
  the bytes before the string and after its old terminator are untouched. A null
  pointer comes back as null. In particular \<^verbatim>\<open>" \t hi \n"\<close> becomes \<^verbatim>\<open>"hi"\<close>, and the
  empty string stays empty.
\<close>

theorem str_trim_trims:
  "(terminated mem s \<longrightarrow>
      (\<exists>mem'. str_trim (Some s) mem = Some (Some s, mem')
         \<and> terminated mem' s \<and> cstr mem' s = trimmed (cstr mem s)
         \<and> length mem' = length mem \<and> take s mem' = take s mem
         \<and> drop (s + length (cstr mem s) + 1) mem' = drop (s + length (cstr mem s) + 1) mem))
   \<and> (\<exists>lead trail. t = lead @ trimmed t @ trail \<and> list_all is_ws lead \<and> list_all is_ws trail)
   \<and> (trimmed t \<noteq> [] \<longrightarrow> \<not> is_ws (hd (trimmed t)) \<and> \<not> is_ws (last (trimmed t)))
   \<and> str_trim None mem = Some (None, mem)
   \<and> cstr padded_hi 0 = [CHR '' '', CHR 0x09, CHR '' '', CHR ''h'', CHR ''i'', CHR '' '', CHR 0x0A]
   \<and> (\<exists>m. str_trim (Some 0) padded_hi = Some (Some 0, m) \<and> cstr m 0 = ''hi'')
   \<and> cstr [NUL] 0 = []
   \<and> (\<exists>m. str_trim (Some 0) [NUL] = Some (Some 0, m) \<and> cstr m 0 = [])"
proof -
  have cut: "\<exists>lead trail. t = lead @ trimmed t @ trail \<and> list_all is_ws lead \<and> list_all is_ws trail"
  proof (intro exI conjI)
    show "t = takeWhile is_ws t @ trimmed t @ rev (takeWhile is_ws (rev (dropWhile is_ws t)))"
      by (rule trimmed_decomposition)
    show "list_all is_ws (takeWhile is_ws t)"
      by (auto simp: list_all_iff dest: set_takeWhileD)
    show "list_all is_ws (rev (takeWhile is_ws (rev (dropWhile is_ws t))))"
      by (auto simp: list_all_iff dest: set_takeWhileD)
  qed
  have hi: "str_trim (Some 0) padded_hi =
              Some (Some 0, [CHR ''h'', CHR ''i'', NUL, NUL, NUL, CHR '' '', CHR 0x0A, NUL])"
    by code_simp
  have "cstr [CHR ''h'', CHR ''i'', NUL, NUL, NUL, CHR '' '', CHR 0x0A, NUL] 0 = ''hi''"
    by (simp add: cstr_def)
  with hi have example: "\<exists>m. str_trim (Some 0) padded_hi = Some (Some 0, m) \<and> cstr m 0 = ''hi''"
    by simp
  have "str_trim (Some 0) [NUL] = Some (Some 0, [NUL])"
    by code_simp
  then have empty: "\<exists>m. str_trim (Some 0) [NUL] = Some (Some 0, m) \<and> cstr m 0 = []"
    by (simp add: cstr_def)
  show ?thesis
    using str_trim_in_place [of mem s] cut trimmed_ends [of t] example empty
    by (simp add: str_trim_def cstr_def padded_hi_def)
qed

theorem str_trim_trims_witness:
  "terminated config_line 3
   \<and> cstr config_line 3 = '' 42 '' @ [CHR 0x0D, CHR 0x0A]
   \<and> trimmed ('' 42 '' @ [CHR 0x0D, CHR 0x0A]) = ''42''
   \<and> (\<exists>mem'. str_trim (Some 3) config_line = Some (Some 3, mem')
          \<and> cstr mem' 3 = ''42'' \<and> take 3 mem' = ''id='' \<and> drop 10 mem' = ''next'' @ [NUL])"
proof -
  have ended: "terminated config_line 3"
    by (simp add: terminated_def config_line_def)
  have string: "cstr config_line 3 = '' 42 '' @ [CHR 0x0D, CHR 0x0A]"
    by (simp add: cstr_def config_line_def)
  have cut: "trimmed ('' 42 '' @ [CHR 0x0D, CHR 0x0A]) = ''42''"
    by (simp add: trimmed_def is_ws_def)
  have sides: "take 3 config_line = ''id=''" "drop 10 config_line = ''next'' @ [NUL]"
    by (simp_all add: config_line_def)
  from str_trim_trims [of config_line 3 "[]"] ended
  obtain mem' where "str_trim (Some 3) config_line = Some (Some 3, mem')"
    "cstr mem' 3 = trimmed (cstr config_line 3)" "take 3 mem' = take 3 config_line"
    "drop (3 + length (cstr config_line 3) + 1) mem' = drop (3 + length (cstr config_line 3) + 1) config_line"
    by blast
  then have "str_trim (Some 3) config_line = Some (Some 3, mem') \<and> cstr mem' 3 = ''42''
      \<and> take 3 mem' = ''id='' \<and> drop 10 mem' = ''next'' @ [NUL]"
    unfolding string cut by (simp add: sides)
  with ended string cut show ?thesis
    by blast
qed

section \<open>Properties of the whole-file read\<close>

lemma long_nonneg:
  fixes sz :: "64 word"
  assumes "0 \<le> sint sz"
  shows "unat (sz + 1) = unat sz + 1" and "nat (sint sz) = unat sz"
proof -
  have "sint sz < 2 ^ 63"
    using sint_lt [of sz] by simp
  then have "sint sz < 2 ^ 64"
    by simp
  with assms have "take_bit 64 (sint sz) = sint sz"
    by (simp add: take_bit_int_eq_self)
  then have same: "uint sz = sint sz"
    using uint_sint [of sz] by simp
  then have "nat (sint sz) = nat (uint sz)"
    by simp
  then show "nat (sint sz) = unat sz"
    by (simp only: unat_eq_nat_uint)
  with \<open>sint sz < 2 ^ 63\<close> assms have "unat sz < 2 ^ 63"
    by (metis nat_less_numeral_power_cancel_iff)
  then have "unat sz + unat (1 :: 64 word) < 2 ^ LENGTH(64)"
    by simp
  then show "unat (sz + 1) = unat sz + 1"
    by (simp add: unat_add_lem [THEN iffD1])
qed

lemma file_read_all_opened:
  assumes "fopen_ok w path ''rb''" and "malloc_ok w (unat (ftell_end w path + 1))"
    and "0 \<le> sint (ftell_end w path)"
  shows "file_read_all (Some path) w =
           (if bytes_read w path \<noteq> unat (ftell_end w path)
            then Returns None (opened_and_closed path w)
            else Returns (Some (take (unat (ftell_end w path))
                                  (fread_src w path (unat (ftell_end w path))) @ [NUL]))
                   (opened_and_closed path w))"
proof -
  define sz where "sz = ftell_end w path"
  define f where "f = File (next_stream w) path"
  define w1 where "w1 = w\<lparr>open_streams := f # open_streams w, next_stream := next_stream w + 1\<rparr>"
  define block where "block = map (heap_junk w) [0..<unat (sz + 1)]"
  define got where "got = take (unat sz) (fread_src w path (unat sz))"
  note long = long_nonneg [OF assms(3), folded sz_def]
  have opened: "fopen path ''rb'' w = (Some f, w1)"
    using assms(1) by (simp add: fopen_def f_def w1_def Let_def)
  have env: "ftell_end w1 path = sz" "fread_src w1 path (unat sz) = fread_src w path (unat sz)"
    by (simp_all add: w1_def sz_def)
  have alloc: "safe_malloc (unat (sz + 1)) w1 = Returns (Some block) w1"
    using assms(2) [folded sz_def] by (simp add: safe_malloc_def malloc_def w1_def block_def)
  have room: "length block = unat sz + 1"
    by (simp add: block_def long(1))
  have short: "length got \<le> unat sz"
    by (simp add: got_def)
  with room have read: "fread (Some block) (unat sz) f w1 = Some (length got, Some (got @ drop (length got) block))"
    by (simp add: fread_def f_def env got_def Let_def)
  have closed: "fclose f w1 = opened_and_closed path w"
    by (simp add: fclose_def w1_def opened_and_closed_def f_def)
  have count: "bytes_read w path = length got"
    by (simp add: bytes_read_def got_def sz_def)
  have stored: "(got @ drop (length got) block)[unat sz := NUL] = got @ [NUL]"
    if "length got = unat sz"
  proof -
    have "length (drop (length got) block) = 1"
      using that room by simp
    then obtain c where "drop (length got) block = [c]"
      by (cases "drop (length got) block") auto
    with that show ?thesis
      by (simp add: list_update_append)
  qed
  have fits: "0 \<le> sint sz" "nat (sint sz) < length (got @ drop (length got) block)"
    using assms(3) [folded sz_def] short room by (simp_all add: long(2))
  show ?thesis
  proof (cases "length got = unat sz")
    case True
    with opened env alloc read closed stored fits show ?thesis
      unfolding file_read_all_def count sz_def [symmetric] got_def [symmetric]
      by (simp add: then_do_def long(2))
  next
    case False
    with opened env alloc read closed show ?thesis
      unfolding file_read_all_def count sz_def [symmetric] got_def [symmetric]
      by (simp add: then_do_def)
  qed
qed

lemma file_read_all_no_memory:
  assumes "fopen_ok w path ''rb''" and "\<not> malloc_ok w (unat (ftell_end w path + 1))"
    and "ftell_end w path + 1 \<noteq> 0"
  shows "file_read_all (Some path) w =
           Exits EXIT_FAILURE
             (w\<lparr>open_streams := File (next_stream w) path # open_streams w,
                next_stream := next_stream w + 1,
                trace := trace w @ [Write Stderr (''Error: Memory allocation failed'' @ [newline])]\<rparr>)"
proof -
  have "0 < unat (ftell_end w path + 1)"
    using assms(3) by (simp add: unat_gt_0)
  with assms(1,2) show ?thesis
    by (simp add: file_read_all_def fopen_def safe_malloc_def malloc_def then_do_def fprintf_def
        Let_def)
qed

lemma file_read_all_by_read:
  assumes "fopen_ok w path ''rb''" and "read_of w path = Some (n, c)"
  shows "file_read_all (Some path) w =
           (if n \<noteq> unat (ftell_end w path) then Returns None (opened_and_closed path w)
            else case c of
                   None \<Rightarrow> Faults
                 | Some block \<Rightarrow>
                     if 0 \<le> sint (ftell_end w path) \<and> nat (sint (ftell_end w path)) < length block
                     then Returns (Some (block[nat (sint (ftell_end w path)) := NUL]))
                            (opened_and_closed path w)
                     else Faults)"
proof -
  define sz where "sz = ftell_end w path"
  define f where "f = File (next_stream w) path"
  define w1 where "w1 = w\<lparr>open_streams := f # open_streams w, next_stream := next_stream w + 1\<rparr>"
  have opened: "fopen path ''rb'' w = (Some f, w1)"
    using assms(1) by (simp add: fopen_def f_def w1_def Let_def)
  have size: "ftell_end w1 path = sz"
    by (simp add: w1_def sz_def)
  from assms(2) obtain content where
    alloc: "safe_malloc (unat (sz + 1)) w = Returns content w"
    and read: "fread content (unat sz) f w = Some (n, c)"
    by (auto simp: read_of_def safe_malloc_def Let_def sz_def f_def split: if_splits)
  have alloc1: "safe_malloc (unat (sz + 1)) w1 = Returns content w1"
    using alloc by (auto simp: safe_malloc_def malloc_def w1_def Let_def split: if_splits)
  have read1: "fread content (unat sz) f w1 = Some (n, c)"
    using read by (simp add: fread_def f_def w1_def)
  have closed: "fclose f w1 = opened_and_closed path w"
    by (simp add: fclose_def w1_def opened_and_closed_def f_def)
  show ?thesis
    using opened alloc1 read1 closed
    unfolding file_read_all_def sz_def [symmetric]
    by (simp add: size then_do_def)
qed

lemma read_of_count:
  assumes "read_of w path = Some (n, c)"
  shows "n = bytes_read w path"
  using assms
  by (auto simp: read_of_def safe_malloc_def fread_def bytes_read_def Let_def
      split: if_splits option.splits)

text \<open>
  For every size but \<open>-1\<close> the block has one byte more than the request, so the read
  stays inside it, whatever the file delivers.
\<close>

lemma read_of_exists:
  assumes "malloc_ok w (unat (ftell_end w path + 1))" and "ftell_end w path + 1 \<noteq> 0"
  shows "\<exists>c. read_of w path = Some (bytes_read w path, c)"
proof -
  define sz where "sz = ftell_end w path"
  have "1 + sz \<noteq> 0"
    using assms(2) by (simp add: sz_def add.commute)
  then have room: "unat (sz + 1) = Suc (unat sz)"
    using unatSuc [of sz] by (simp add: add.commute)
  have "length (take (unat sz) (fread_src w path (unat sz))) \<le> unat sz"
    by simp
  then show ?thesis
    using assms(1) unfolding sz_def [symmetric] read_of_def bytes_read_def
    by (simp add: safe_malloc_def malloc_def fread_def room Let_def)
qed

text \<open>
  C7, as the header has it. For a file that opens and whose size is 0, provided the
  allocation of its one byte succeeds, \<^verbatim>\<open>file_read_all\<close> returns a new block holding the
  empty string (a single NUL), not null. For every read whose count differs from the
  queried size, whatever that size is (the \<open>-1\<close> of a failed query included),
  \<^verbatim>\<open>file_read_all\<close> returns null. When the allocation of a block of one byte or more
  fails, as it can for the empty file, the call does not return: \<^verbatim>\<open>safe_malloc\<close> writes
  its diagnostic and ends the process with the failure status. In the two returning cases
  the stream has been closed again.
\<close>

theorem file_read_all_empty_or_mismatch:
  assumes "fopen_ok w path ''rb''"
  shows "(ftell_end w path = 0 \<and> malloc_ok w 1 \<longrightarrow>
            file_read_all (Some path) w = Returns (Some [NUL]) (opened_and_closed path w)
            \<and> cstr [NUL] 0 = [])
       \<and> (read_of w path = Some (read_size, content) \<and> read_size \<noteq> unat (ftell_end w path) \<longrightarrow>
            file_read_all (Some path) w = Returns None (opened_and_closed path w))
       \<and> (ftell_end w path + 1 \<noteq> 0 \<and> \<not> malloc_ok w (unat (ftell_end w path + 1)) \<longrightarrow>
            (\<exists>w'. file_read_all (Some path) w = Exits EXIT_FAILURE w'
               \<and> emitted w w' = [Write Stderr (''Error: Memory allocation failed'' @ [newline])]))"
proof (intro conjI impI)
  assume empty: "ftell_end w path = 0 \<and> malloc_ok w 1"
  then have "bytes_read w path = 0"
    by (simp add: bytes_read_def)
  with empty file_read_all_opened [OF assms]
  show "file_read_all (Some path) w = Returns (Some [NUL]) (opened_and_closed path w)"
    by simp
  show "cstr [NUL] 0 = []"
    by (simp add: cstr_def)
next
  assume "read_of w path = Some (read_size, content) \<and> read_size \<noteq> unat (ftell_end w path)"
  with file_read_all_by_read [OF assms, of read_size content]
  show "file_read_all (Some path) w = Returns None (opened_and_closed path w)"
    by simp
next
  assume "ftell_end w path + 1 \<noteq> 0 \<and> \<not> malloc_ok w (unat (ftell_end w path + 1))"
  with file_read_all_no_memory [OF assms]
  show "\<exists>w'. file_read_all (Some path) w = Exits EXIT_FAILURE w'
               \<and> emitted w w' = [Write Stderr (''Error: Memory allocation failed'' @ [newline])]"
    by (simp add: emitted_def)
qed

theorem file_read_all_empty_or_mismatch_witness:
  "fopen_ok world0 ''empty.txt'' ''rb'' \<and> ftell_end world0 ''empty.txt'' = 0 \<and> malloc_ok world0 1
   \<and> file_read_all (Some ''empty.txt'') world0 = Returns (Some [NUL]) (opened_and_closed ''empty.txt'' world0)
   \<and> fopen_ok short_read_world ''data.bin'' ''rb''
   \<and> unat (ftell_end short_read_world ''data.bin'') = 4
   \<and> read_of short_read_world ''data.bin'' = Some (2, Some ''ab???'')
   \<and> file_read_all (Some ''data.bin'') short_read_world
       = Returns None (opened_and_closed ''data.bin'' short_read_world)
   \<and> fopen_ok failed_tell_world ''data.bin'' ''rb''
   \<and> sint (ftell_end failed_tell_world ''data.bin'') = - 1
   \<and> unat (ftell_end failed_tell_world ''data.bin'') = 18446744073709551615
   \<and> read_of failed_tell_world ''data.bin'' = Some (0, Some [])
   \<and> file_read_all (Some ''data.bin'') failed_tell_world
       = Returns None (opened_and_closed ''data.bin'' failed_tell_world)
   \<and> fopen_ok no_memory_world ''data.bin'' ''rb''
   \<and> (\<exists>w'. file_read_all (Some ''data.bin'') no_memory_world = Exits 1 w')"
proof -
  have empty: "fopen_ok world0 ''empty.txt'' ''rb''" "ftell_end world0 ''empty.txt'' = 0"
    "malloc_ok world0 1"
    by (simp_all add: world0_def)
  have short: "fopen_ok short_read_world ''data.bin'' ''rb''"
    "ftell_end short_read_world ''data.bin'' = 4"
    by (simp_all add: short_read_world_def world0_def)
  have short_read: "read_of short_read_world ''data.bin'' = Some (2, Some ''ab???'')"
    by (simp add: read_of_def safe_malloc_def malloc_def fread_def short Let_def)
       (simp add: short_read_world_def world0_def upt_rec)
  have failed: "fopen_ok failed_tell_world ''data.bin'' ''rb''"
    "ftell_end failed_tell_world ''data.bin'' = - 1"
    by (simp_all add: failed_tell_world_def world0_def)
  have request: "unat (- 1 :: 64 word) = 18446744073709551615"
    by (simp add: unsigned_minus_1_eq_mask mask_eq_exp_minus_1)
  have failed_read: "read_of failed_tell_world ''data.bin'' = Some (0, Some [])"
    by (simp add: read_of_def safe_malloc_def malloc_def fread_def failed Let_def)
       (simp add: failed_tell_world_def world0_def request)
  have none: "fopen_ok no_memory_world ''data.bin'' ''rb''"
    "ftell_end no_memory_world ''data.bin'' = 4" "\<not> malloc_ok no_memory_world 5"
    by (simp_all add: no_memory_world_def world0_def)
  show ?thesis
    using file_read_all_empty_or_mismatch [OF empty(1)]
      file_read_all_empty_or_mismatch [OF short(1), of 2 "Some ''ab???''"]
      file_read_all_empty_or_mismatch [OF failed(1), of 0 "Some []"]
      file_read_all_empty_or_mismatch [OF none(1)]
      empty short short_read failed failed_read none request
    by (auto simp: EXIT_FAILURE_def)
qed

text \<open>
  C7, as the spec has it, fails where the allocation fails: the file exists and has size
  0, and \<^verbatim>\<open>file_read_all\<close> does not return a string, nor anything else: the process ends.
\<close>

theorem file_read_all_empty_file_exits:
  "fopen_ok no_memory_world ''empty.txt'' ''rb''
   \<and> ftell_end no_memory_world ''empty.txt'' = 0
   \<and> file_read_all (Some ''empty.txt'') no_memory_world =
       Exits EXIT_FAILURE
         (no_memory_world\<lparr>open_streams := [File 0 ''empty.txt''], next_stream := 1,
            trace := [Write Stderr (''Error: Memory allocation failed'' @ [newline])]\<rparr>)
   \<and> file_read_all (Some ''empty.txt'') no_memory_world
       \<noteq> Returns (Some [NUL]) (opened_and_closed ''empty.txt'' no_memory_world)"
proof -
  have facts: "fopen_ok no_memory_world ''empty.txt'' ''rb''"
    "ftell_end no_memory_world ''empty.txt'' = 0"
    "\<not> malloc_ok no_memory_world (unat (ftell_end no_memory_world ''empty.txt'' + 1))"
    "ftell_end no_memory_world ''empty.txt'' + 1 \<noteq> 0"
    by (simp_all add: no_memory_world_def world0_def)
  have state: "open_streams no_memory_world = []" "next_stream no_memory_world = 0"
    "trace no_memory_world = []"
    by (simp_all add: no_memory_world_def world0_def)
  show ?thesis
    using file_read_all_no_memory [OF facts(1) facts(3) facts(4)] facts(1,2)
    by (simp add: state)
qed

section \<open>Properties of the random integers\<close>

lemma sint_in_range:
  "- (2 ^ 31) \<le> k \<Longrightarrow> k < 2 ^ 31 \<Longrightarrow> sint (word_of_int k :: 32 word) = k"
  by (simp add: sint_sbintrunc' signed_take_bit_int_eq_self)

lemma random_int_reversed_in_range:
  assumes "sint b < sint a" and "sint a - sint b < 2 ^ 31 - 1" and "0 \<le> sint r"
  shows "\<exists>v. random_int a b r = Inr v \<and> sint b \<le> sint v \<and> sint v \<le> sint a"
proof -
  define width where "width = sint a - sint b + 1"
  have bounds: "- (2 ^ 31) \<le> sint a" "sint a < 2 ^ 31" "- (2 ^ 31) \<le> sint b" "sint b < 2 ^ 31"
    "sint r < 2 ^ 31"
    using sint_ge [of a] sint_lt [of a] sint_ge [of b] sint_lt [of b] sint_lt [of r] by simp_all
  have width: "1 < width" "width < 2 ^ 31"
    using assms(1,2) by (simp_all add: width_def)
  have "a - b + 1 = word_of_int (sint a - sint b + 1)"
    by simp
  then have m: "sint (a - b + 1) = width"
    using width by (simp only: width_def [symmetric] sint_in_range)
  then have nonzero: "a - b + 1 \<noteq> 0"
    using width by auto
  define k where "k = sint r smod width"
  have k: "0 \<le> k" "k < width"
    using smod_int_compares(1,2) [of "sint r" width] assms(3) width by (simp_all add: k_def)
  have rem: "c_rem r (a - b + 1) = Inr (word_of_int k)"
    using nonzero assms(3) by (simp add: c_rem_def m k_def)
  have q: "sint (word_of_int k :: 32 word) = k"
    using k width by (intro sint_in_range) simp_all
  have "b + word_of_int k = word_of_int (sint b + k)"
    by simp
  moreover have "- (2 ^ 31) \<le> sint b + k" "sint b + k < 2 ^ 31"
    using k bounds by (simp_all add: width_def)
  ultimately have v: "sint (b + word_of_int k) = sint b + k"
    by (simp only: sint_in_range)
  have "random_int a b r = Inr (b + word_of_int k)"
    using assms(1) rem by (simp add: random_int_def)
  with v k show ?thesis
    by (simp add: width_def)
qed

text \<open>
  The spec's example: \<^verbatim>\<open>random_int(5, 1)\<close> is in \<open>[1, 5]\<close> for every value of \<^verbatim>\<open>rand()\<close>,
  which is never negative.
\<close>

lemma random_int_5_1:
  assumes "0 \<le> sint r"
  shows "\<exists>v. random_int 5 1 r = Inr v \<and> 1 \<le> sint v \<and> sint v \<le> 5"
  using random_int_reversed_in_range [of 1 5 r] assms by simp

text \<open>
  C10. The claim holds while the width of the range, \<^verbatim>\<open>max - min + 1\<close>, fits an \<^verbatim>\<open>int\<close>
  (\<open>random_int_reversed_in_range\<close>), and not for all reversed bounds: at
  \<^verbatim>\<open>random_int(INT_MAX, INT_MIN)\<close> the bounds are swapped, the width wraps around to 0,
  and \<^verbatim>\<open>rand() % 0\<close> has no value, whatever \<^verbatim>\<open>rand()\<close> returned. The call yields no
  number, in the range or outside it.
\<close>

theorem random_int_full_range_no_value:
  "sint (0x7FFFFFFF :: 32 word) = 2147483647
   \<and> sint (0x80000000 :: 32 word) = - 2147483648
   \<and> random_int 0x7FFFFFFF 0x80000000 r = Inl DivisionByZero"
  by (simp add: random_int_def c_rem_def)

end
